theory Spec2Isabelle
  imports Main "HOL-Library.Sublist"
begin

section \<open>The capture layer as seen by the camera utilities\<close>

text \<open>
  The camera utilities of \<^verbatim>\<open>src/camera_utils.py\<close> and \<^verbatim>\<open>test_all_cameras.py\<close> talk to
  the operating system through four calls of the capture library: creating a capture
  object for an index, asking whether it opened, reading one frame, and releasing it.
  What the operating system answers is not in the program, so it is a parameter of the
  model: a \<open>world\<close> says, for the n-th capture object ever created and the index it was
  created for, whether the device opens and, if it does, how that capture session
  behaves. The world may answer differently at different times (a device is unplugged,
  a driver refuses a second open), so every theorem below holds for all such behaviour.
  One answer is the library's own and the same in every world: the index is passed to
  the library as a C int, and for a number that does not fit one the call to create
  the capture object raises the library's error before any device is touched.
\<close>

datatype read_behaviour =
    Frame int int    \<comment> \<open>the read delivers a frame: \<open>shape[0]\<close> (rows), \<open>shape[1]\<close> (columns)\<close>
  | NoFrame          \<comment> \<open>the read returns \<open>(False, None)\<close>\<close>
  | Blocks           \<comment> \<open>the read never returns\<close>

record session =
  s_read :: read_behaviour
  s_width :: int      \<comment> \<open>\<open>int(cap.get(CAP_PROP_FRAME_WIDTH))\<close>\<close>
  s_height :: int     \<comment> \<open>\<open>int(cap.get(CAP_PROP_FRAME_HEIGHT))\<close>\<close>
  s_backend :: string \<comment> \<open>\<open>cap.getBackendName()\<close>\<close>

type_synonym world = "nat \<Rightarrow> int \<Rightarrow> session option"

text \<open>What the program prints, one constructor per \<^verbatim>\<open>print\<close> call of the source.\<close>

datatype message =
    OnlyCameraDetected int              \<comment> \<open>select_best_camera, one camera\<close>
  | MultipleDetected "int list"         \<comment> \<open>select_best_camera, several cameras\<close>
  | AutoSelectedExternal int
  | AutoSelectedBuiltin int
  | CameraOpened int int int string     \<comment> \<open>open_camera\<close>
  | AvailableHeader                     \<comment> \<open>list_cameras_interactive\<close>
  | RuleLine
  | CameraLine int int int string
  | CameraAvailableLine int
  | OnlyOneAvailable int
  | NotAvailableChoose int "int list"
  | InvalidInput
  | Cancelled
  | TestWorking int int int             \<comment> \<open>test_camera: index, \<open>shape[1]\<close>, \<open>shape[0]\<close>\<close>
  | TestNoFrames int
  | TestNotAvailable int

datatype event =
    EvOpen int          \<comment> \<open>a capture object was created and holds a handle on the index\<close>
  | EvOpenFailed int    \<comment> \<open>a capture object was created and did not open\<close>
  | EvRejected int      \<comment> \<open>the library refused the index; no capture object was created\<close>
  | EvRead int
  | EvRelease int       \<comment> \<open>an open capture object on the index was released\<close>
  | EvPrint message
  | EvPrompt "int list" \<comment> \<open>\<open>input(...)\<close> was called, showing the list\<close>

text \<open>What the operator does at a prompt: types a line, or interrupts.\<close>

datatype response = Line string | Interrupt

record state =
  clock :: nat            \<comment> \<open>number of capture objects created so far\<close>
  events :: "event list"  \<comment> \<open>everything done so far, oldest first\<close>
  stdin :: "response list" \<comment> \<open>what the operator will still do\<close>

datatype runtime_error =
    NoCamerasPleaseConnect         \<comment> \<open>"No cameras detected! Please connect a camera and try again."\<close>
  | NoCamerasDetected              \<comment> \<open>"No cameras detected!"\<close>
  | FailedToOpen int "int list"    \<comment> \<open>"Failed to open camera i. Available cameras: [...]"\<close>

datatype exn =
    RuntimeError runtime_error
  | KeyboardInterrupt
  | EOFError
  | Cv2Error    \<comment> \<open>\<open>cv2.error\<close>, raised by the capture library itself\<close>

text \<open>A call either returns, raises, or never returns; the state it reached comes with it.\<close>

datatype 'a result = Ret 'a | Exc exn | Hang

type_synonym 'a outcome = "'a result \<times> state"

definition emit :: "event \<Rightarrow> state \<Rightarrow> state" where
  "emit e s = s\<lparr>events := events s @ [e]\<rparr>"

definition print :: "message \<Rightarrow> state \<Rightarrow> state" where
  "print m s = emit (EvPrint m) s"

subsection \<open>Capture objects\<close>

record cap =
  cap_index :: int
  cap_session :: "session option"

text \<open>The numbers a C int can hold.\<close>

definition fits_c_int :: "int \<Rightarrow> bool" where
  "fits_c_int i = (- 2147483648 \<le> i \<and> i \<le> 2147483647)"

text \<open>
  \<open>cv2.VideoCapture(i)\<close>: for an index that fits a C int a capture object is created,
  open or not as the world says; for any other index the call raises \<open>cv2.error\<close> and
  nothing is created.
\<close>

definition VideoCapture :: "world \<Rightarrow> int \<Rightarrow> state \<Rightarrow> cap outcome" where
  "VideoCapture W i s =
     (if fits_c_int i then
        (Ret \<lparr>cap_index = i, cap_session = W (clock s) i\<rparr>,
         emit (if W (clock s) i = None then EvOpenFailed i else EvOpen i)
              (s\<lparr>clock := Suc (clock s)\<rparr>))
      else (Exc Cv2Error, emit (EvRejected i) s))"

definition isOpened :: "cap \<Rightarrow> bool" where
  "isOpened c = (cap_session c \<noteq> None)"

text \<open>\<open>cap.read()\<close> returns \<open>(ret, frame)\<close>; \<open>ret\<close> is true exactly when there is a frame.\<close>

definition cap_read :: "cap \<Rightarrow> state \<Rightarrow> (int \<times> int) option outcome" where
  "cap_read c s =
     (case cap_session c of
        None \<Rightarrow> (Ret None, s)
      | Some ss \<Rightarrow>
          (case s_read ss of
             Frame rows cols \<Rightarrow> (Ret (Some (rows, cols)), emit (EvRead (cap_index c)) s)
           | NoFrame \<Rightarrow> (Ret None, emit (EvRead (cap_index c)) s)
           | Blocks \<Rightarrow> (Hang, emit (EvRead (cap_index c)) s)))"

definition cap_release :: "cap \<Rightarrow> state \<Rightarrow> state" where
  "cap_release c s = (if isOpened c then emit (EvRelease (cap_index c)) s else s)"

subsection \<open>Handles held\<close>

text \<open>
  The handles held after a sequence of events, as the list of their indices, newest
  first: an open adds one, a release gives one back.
\<close>

definition held_step :: "int list \<Rightarrow> event \<Rightarrow> int list" where
  "held_step h e = (case e of EvOpen i \<Rightarrow> i # h | EvRelease i \<Rightarrow> remove1 i h | _ \<Rightarrow> h)"

definition handles_held :: "event list \<Rightarrow> int list" where
  "handles_held evs = foldl held_step [] evs"

text \<open>\<open>always_from P h evs\<close>: starting with the handles \<open>h\<close>, \<open>P\<close> holds of the handles held
  before the first event, between any two events, and after the last.\<close>

fun always_from :: "(int list \<Rightarrow> bool) \<Rightarrow> int list \<Rightarrow> event list \<Rightarrow> bool" where
  "always_from P h [] = P h"
| "always_from P h (e # es) = (P h \<and> always_from P (held_step h e) es)"

definition new_events :: "state \<Rightarrow> state \<Rightarrow> event list" where
  "new_events s s' = drop (length (events s)) (events s')"

section \<open>camera_utils.py\<close>

subsection \<open>get_available_cameras\<close>

text \<open>The body of the scan loop (lines 20 to 25) for one index: the result says whether
  the index is appended to \<open>available\<close>.\<close>

definition probe :: "world \<Rightarrow> int \<Rightarrow> state \<Rightarrow> bool outcome" where
  "probe W i s =
     (case VideoCapture W i s of
        (Ret c, s1) \<Rightarrow>
          if isOpened c then
            (case cap_read c s1 of
               (Ret frame, s2) \<Rightarrow> (Ret (frame \<noteq> None), cap_release c s2)
             | (Exc e, s2) \<Rightarrow> (Exc e, s2)
             | (Hang, s2) \<Rightarrow> (Hang, s2))
          else (Ret False, s1)
      | (Exc e, s1) \<Rightarrow> (Exc e, s1)
      | (Hang, s1) \<Rightarrow> (Hang, s1))"

fun scan :: "world \<Rightarrow> int list \<Rightarrow> int list \<Rightarrow> state \<Rightarrow> int list outcome" where
  "scan W [] available s = (Ret available, s)"
| "scan W (i # rest) available s =
     (case probe W i s of
        (Ret ok, s1) \<Rightarrow> scan W rest (if ok then available @ [i] else available) s1
      | (Exc e, s1) \<Rightarrow> (Exc e, s1)
      | (Hang, s1) \<Rightarrow> (Hang, s1))"

definition py_range :: "int \<Rightarrow> int list" where
  "py_range n = map int [0..<nat n]"

definition get_available_cameras :: "world \<Rightarrow> int \<Rightarrow> state \<Rightarrow> int list outcome" where
  "get_available_cameras W max_test s = scan W (py_range max_test) [] s"

definition default_max_test :: int where
  "default_max_test = 5"

subsection \<open>get_camera_info\<close>

definition get_camera_info :: "world \<Rightarrow> int \<Rightarrow> state \<Rightarrow> (int \<times> int \<times> string) option outcome" where
  "get_camera_info W index s =
     (case VideoCapture W index s of
        (Ret c, s1) \<Rightarrow>
          (case cap_session c of
             None \<Rightarrow> (Ret None, s1)
           | Some ss \<Rightarrow>
               (Ret (Some (s_width ss, s_height ss, s_backend ss)), cap_release c s1))
      | (Exc e, s1) \<Rightarrow> (Exc e, s1)
      | (Hang, s1) \<Rightarrow> (Hang, s1))"

subsection \<open>select_best_camera\<close>

text \<open>Lines 71 to 93: what select_best_camera does with the list it enumerated.\<close>

definition select_from_available :: "bool \<Rightarrow> int list \<Rightarrow> state \<Rightarrow> int outcome" where
  "select_from_available prefer_external available s =
     (if available = [] then (Exc (RuntimeError NoCamerasPleaseConnect), s)
      else if length available = 1 then
        (Ret (hd available), print (OnlyCameraDetected (hd available)) s)
      else if prefer_external then
        (Ret (last available),
         print (AutoSelectedExternal (last available)) (print (MultipleDetected available) s))
      else
        (Ret (hd available),
         print (AutoSelectedBuiltin (hd available)) (print (MultipleDetected available) s)))"

definition select_best_camera :: "world \<Rightarrow> bool \<Rightarrow> state \<Rightarrow> int outcome" where
  "select_best_camera W prefer_external s =
     (case get_available_cameras W default_max_test s of
        (Ret available, s1) \<Rightarrow> select_from_available prefer_external available s1
      | (Exc e, s1) \<Rightarrow> (Exc e, s1)
      | (Hang, s1) \<Rightarrow> (Hang, s1))"

subsection \<open>open_camera\<close>

text \<open>Lines 113 to 126: opening the index once it is known.\<close>

definition open_index :: "world \<Rightarrow> int \<Rightarrow> state \<Rightarrow> cap outcome" where
  "open_index W camera_index s =
     (case VideoCapture W camera_index s of
        (Ret c, s1) \<Rightarrow>
          if \<not> isOpened c then
            (case get_available_cameras W default_max_test s1 of
               (Ret available, s2) \<Rightarrow>
                 (Exc (RuntimeError (FailedToOpen camera_index available)), s2)
             | (Exc e, s2) \<Rightarrow> (Exc e, s2)
             | (Hang, s2) \<Rightarrow> (Hang, s2))
          else
            (case get_camera_info W camera_index s1 of
               (Ret (Some (width, height, backend)), s2) \<Rightarrow>
                 (Ret c, print (CameraOpened camera_index width height backend) s2)
             | (Ret None, s2) \<Rightarrow> (Ret c, s2)
             | (Exc e, s2) \<Rightarrow> (Exc e, s2)
             | (Hang, s2) \<Rightarrow> (Hang, s2))
      | (Exc e, s1) \<Rightarrow> (Exc e, s1)
      | (Hang, s1) \<Rightarrow> (Hang, s1))"

definition open_camera :: "world \<Rightarrow> int option \<Rightarrow> bool \<Rightarrow> state \<Rightarrow> cap outcome" where
  "open_camera W camera_index prefer_external s =
     (case camera_index of
        Some i \<Rightarrow> open_index W i s
      | None \<Rightarrow>
          (case select_best_camera W prefer_external s of
             (Ret i, s1) \<Rightarrow> open_index W i s1
           | (Exc e, s1) \<Rightarrow> (Exc e, s1)
           | (Hang, s1) \<Rightarrow> (Hang, s1)))"

subsection \<open>list_cameras_interactive\<close>

text \<open>
  \<open>str.strip()\<close> removes the white space at both ends. A character here stands for the
  code point of its number (0 to 255); of these, Python counts the following as white
  space.
\<close>

definition is_space :: "char \<Rightarrow> bool" where
  "is_space c = (of_char c \<in> set [9, 10, 11, 12, 13, 28, 29, 30, 31, 32, 133, 160 :: nat])"

definition py_strip :: "string \<Rightarrow> string" where
  "py_strip l = rev (dropWhile is_space (rev (dropWhile is_space l)))"

text \<open>
  \<open>int(choice)\<close> on a stripped string: an optional sign, then decimal digits, where single
  underscores may stand between digits. \<open>None\<close> is Python's ValueError. (The
  interpreter's limit on the number of digits of one literal is not modelled.)
\<close>

definition is_digit :: "char \<Rightarrow> bool" where
  "is_digit c = (48 \<le> (of_char c :: nat) \<and> (of_char c :: nat) \<le> 57)"

definition digit_value :: "char \<Rightarrow> nat" where
  "digit_value c = of_char c - 48"

fun digits_value :: "nat \<Rightarrow> string \<Rightarrow> nat option" where
  "digits_value acc [] = Some acc"
| "digits_value acc [c] = (if is_digit c then Some (acc * 10 + digit_value c) else None)"
| "digits_value acc (c # d # cs) =
     (if is_digit c then digits_value (acc * 10 + digit_value c) (d # cs)
      else if c = CHR ''_'' \<and> is_digit d then digits_value acc (d # cs)
      else None)"

definition py_nat :: "string \<Rightarrow> nat option" where
  "py_nat l = (case l of [] \<Rightarrow> None | c # _ \<Rightarrow> if is_digit c then digits_value 0 l else None)"

definition py_int :: "string \<Rightarrow> int option" where
  "py_int l =
     (case l of
        [] \<Rightarrow> None
      | c # rest \<Rightarrow>
          if c = CHR ''+'' then map_option int (py_nat rest)
          else if c = CHR ''-'' then map_option (\<lambda>n. - int n) (py_nat rest)
          else map_option int (py_nat l))"

text \<open>Lines 144 to 150: one line of the listing per camera, each from a new get_camera_info.\<close>

fun show_cameras :: "world \<Rightarrow> int list \<Rightarrow> state \<Rightarrow> unit outcome" where
  "show_cameras W [] s = (Ret (), s)"
| "show_cameras W (idx # rest) s =
     (case get_camera_info W idx s of
        (Ret (Some (width, height, backend)), s1) \<Rightarrow>
          show_cameras W rest (print (CameraLine idx width height backend) s1)
      | (Ret None, s1) \<Rightarrow> show_cameras W rest (print (CameraAvailableLine idx) s1)
      | (Exc e, s1) \<Rightarrow> (Exc e, s1)
      | (Hang, s1) \<Rightarrow> (Hang, s1))"

text \<open>
  Lines 158 to 175: the prompt loop, over what the operator will do. \<open>input\<close> shows the
  prompt and takes the operator's next response; when there is none left the input has
  ended and \<open>input\<close> raises EOFError, which the loop does not catch.
\<close>

fun prompt_loop :: "world \<Rightarrow> int list \<Rightarrow> response list \<Rightarrow> state \<Rightarrow> int outcome" where
  "prompt_loop W available [] s = (Exc EOFError, emit (EvPrompt available) (s\<lparr>stdin := []\<rparr>))"
| "prompt_loop W available (r # rest) s =
     (let s1 = emit (EvPrompt available) (s\<lparr>stdin := rest\<rparr>) in
      case r of
        Interrupt \<Rightarrow> (Exc KeyboardInterrupt, print Cancelled s1)
      | Line l \<Rightarrow>
          (let choice = py_strip l in
           if choice = [] then select_best_camera W True s1
           else
             (case py_int choice of
                None \<Rightarrow> prompt_loop W available rest (print InvalidInput s1)
              | Some idx \<Rightarrow>
                  if idx \<in> set available then (Ret idx, s1)
                  else prompt_loop W available rest
                         (print (NotAvailableChoose idx available) s1))))"

definition list_cameras_interactive :: "world \<Rightarrow> state \<Rightarrow> int outcome" where
  "list_cameras_interactive W s =
     (case get_available_cameras W default_max_test s of
        (Ret available, s1) \<Rightarrow>
          if available = [] then (Exc (RuntimeError NoCamerasDetected), s1)
          else
            (case show_cameras W available (print RuleLine (print AvailableHeader s1)) of
               (Ret u, s2) \<Rightarrow>
                 (let s3 = print RuleLine s2 in
                  if length available = 1 then
                    (Ret (hd available), print (OnlyOneAvailable (hd available)) s3)
                  else prompt_loop W available (stdin s3) s3)
             | (Exc e, s2) \<Rightarrow> (Exc e, s2)
             | (Hang, s2) \<Rightarrow> (Hang, s2))
      | (Exc e, s1) \<Rightarrow> (Exc e, s1)
      | (Hang, s1) \<Rightarrow> (Hang, s1))"

section \<open>test_all_cameras.py\<close>

definition test_camera :: "world \<Rightarrow> int \<Rightarrow> state \<Rightarrow> bool outcome" where
  "test_camera W index s =
     (case VideoCapture W index s of
        (Ret c, s1) \<Rightarrow>
          if isOpened c then
            (case cap_read c s1 of
               (Ret (Some (rows, cols)), s2) \<Rightarrow>
                 (Ret True, cap_release c (print (TestWorking index cols rows) s2))
             | (Ret None, s2) \<Rightarrow> (Ret False, cap_release c (print (TestNoFrames index) s2))
             | (Exc e, s2) \<Rightarrow> (Exc e, s2)
             | (Hang, s2) \<Rightarrow> (Hang, s2))
          else (Ret False, print (TestNotAvailable index) s1)
      | (Exc e, s1) \<Rightarrow> (Exc e, s1)
      | (Hang, s1) \<Rightarrow> (Hang, s1))"

section \<open>The vocabulary of the specification\<close>

text \<open>
  The specification classifies what a probe of an index finds. In the model that is a
  property of the capture session the world hands out. Two things a probe can meet have
  no name in the specification: a session whose read never returns, called
  \<open>Unresponsive\<close> here, and an index the library refuses, called \<open>Rejected\<close>.
\<close>

datatype probe_outcome = Unavailable | OpensButNoFrame | Working | Unresponsive | Rejected

definition classify :: "session option \<Rightarrow> probe_outcome" where
  "classify so =
     (case so of
        None \<Rightarrow> Unavailable
      | Some ss \<Rightarrow>
          (case s_read ss of
             Frame rows cols \<Rightarrow> Working
           | NoFrame \<Rightarrow> OpensButNoFrame
           | Blocks \<Rightarrow> Unresponsive))"

text \<open>What probing index \<open>i\<close> finds when the capture object is the \<open>t\<close>-th one created.\<close>

definition probe_finds :: "world \<Rightarrow> nat \<Rightarrow> int \<Rightarrow> probe_outcome" where
  "probe_finds W t i = (if fits_c_int i then classify (W t i) else Rejected)"

definition init_state :: "response list \<Rightarrow> state" where
  "init_state script = \<lparr>clock = 0, events = [], stdin = script\<rparr>"

section \<open>Measuring a run\<close>

definition is_prompt :: "event \<Rightarrow> bool" where
  "is_prompt e = (case e of EvPrompt l \<Rightarrow> True | _ \<Rightarrow> False)"

definition prompts :: "event list \<Rightarrow> nat" where
  "prompts es = length (filter is_prompt es)"

text \<open>
  \<open>steps s r\<close>: the outcome \<open>r\<close> was reached from \<open>s\<close> by creating capture objects and
  adding events only, never holding more than one handle of its own at a time, never
  prompting, and with every handle given back unless the call never returned.
\<close>

definition steps :: "state \<Rightarrow> 'a outcome \<Rightarrow> bool" where
  "steps s r \<longleftrightarrow>
     (\<exists>k es. snd r = s\<lparr>clock := clock s + k, events := events s @ es\<rparr> \<and>
        always_from (\<lambda>h. length h \<le> 1) [] es \<and> prompts es = 0 \<and>
        (fst r \<noteq> Hang \<longrightarrow> foldl held_step [] es = []))"

text \<open>
  \<open>one_at_a_time s r\<close>: on the way from \<open>s\<close> to the outcome \<open>r\<close> events were only added,
  at no moment more than one of the handles opened on the way was held, and all of them
  were given back unless the call never returned.
\<close>

definition one_at_a_time :: "state \<Rightarrow> 'a outcome \<Rightarrow> bool" where
  "one_at_a_time s r \<longleftrightarrow>
     events (snd r) = events s @ new_events s (snd r) \<and>
     always_from (\<lambda>h. length h \<le> 1) [] (new_events s (snd r)) \<and>
     (fst r = Hang \<or> foldl held_step [] (new_events s (snd r)) = [])"

text \<open>At most two handles, and two only on one and the same index.\<close>

definition twin_at_most :: "int list \<Rightarrow> bool" where
  "twin_at_most h = (case h of [] \<Rightarrow> True | [i] \<Rightarrow> True | [i, j] \<Rightarrow> i = j | _ \<Rightarrow> False)"

text \<open>
  \<open>open_discipline s r\<close>: on the way from \<open>s\<close> to the outcome \<open>r\<close> of opening a camera,
  events were only added and the handles held were always \<open>twin_at_most\<close>; a returned
  capture is open and its handle is the only one still held, and after an error none is.
\<close>

definition open_discipline :: "state \<Rightarrow> cap outcome \<Rightarrow> bool" where
  "open_discipline s r \<longleftrightarrow>
     events (snd r) = events s @ new_events s (snd r) \<and>
     always_from twin_at_most [] (new_events s (snd r)) \<and>
     (case fst r of
        Ret c \<Rightarrow> isOpened c \<and> foldl held_step [] (new_events s (snd r)) = [cap_index c]
      | Exc e \<Rightarrow> foldl held_step [] (new_events s (snd r)) = []
      | Hang \<Rightarrow> True)"


section \<open>The operator's responses\<close>





section \<open>Example worlds\<close>

text \<open>Cameras 0 and 2 work, camera 1 opens but delivers no frame, nothing else exists.\<close>

definition demo_world :: world where
  "demo_world t i =
     (if i = 0 \<or> i = 2 then
        Some \<lparr>s_read = Frame 480 640, s_width = 640, s_height = 480, s_backend = ''V4L2''\<rparr>
      else if i = 1 then
        Some \<lparr>s_read = NoFrame, s_width = 0, s_height = 0, s_backend = ''V4L2''\<rparr>
      else None)"

text \<open>Camera 0 opens, and reading from it never returns.\<close>

definition stuck_world :: world where
  "stuck_world t i =
     (if i = 0 then
        Some \<lparr>s_read = Blocks, s_width = 640, s_height = 480, s_backend = ''V4L2''\<rparr>
      else None)"

text \<open>Camera 0 always works; camera 2 works until it is unplugged at time \<open>n\<close>.\<close>

definition unplug_world :: "nat \<Rightarrow> world" where
  "unplug_world n t i =
     (if i = 0 \<or> (i = 2 \<and> t < n) then
        Some \<lparr>s_read = Frame 480 640, s_width = 640, s_height = 480, s_backend = ''V4L2''\<rparr>
      else None)"

text \<open>Camera 3 is the only camera.\<close>

definition single_world :: world where
  "single_world t i =
     (if i = 3 then
        Some \<lparr>s_read = Frame 480 640, s_width = 640, s_height = 480, s_backend = ''V4L2''\<rparr>
      else None)"

section \<open>Basic facts\<close>

lemma emit_simps:
  "clock (emit e s) = clock s" "events (emit e s) = events s @ [e]" "stdin (emit e s) = stdin s"
  by (simp_all add: emit_def)

lemma print_simps:
  "clock (print m s) = clock s" "events (print m s) = events s @ [EvPrint m]"
  "stdin (print m s) = stdin s"
  by (simp_all add: print_def emit_def)

lemma probe_cases:
  "probe W i s =
     (case probe_finds W (clock s) i of
        Unavailable \<Rightarrow>
          (Ret False, s\<lparr>clock := Suc (clock s), events := events s @ [EvOpenFailed i]\<rparr>)
      | OpensButNoFrame \<Rightarrow>
          (Ret False,
           s\<lparr>clock := Suc (clock s), events := events s @ [EvOpen i, EvRead i, EvRelease i]\<rparr>)
      | Working \<Rightarrow>
          (Ret True,
           s\<lparr>clock := Suc (clock s), events := events s @ [EvOpen i, EvRead i, EvRelease i]\<rparr>)
      | Unresponsive \<Rightarrow>
          (Hang, s\<lparr>clock := Suc (clock s), events := events s @ [EvOpen i, EvRead i]\<rparr>)
      | Rejected \<Rightarrow> (Exc Cv2Error, s\<lparr>events := events s @ [EvRejected i]\<rparr>))"
  by (simp add: probe_def VideoCapture_def isOpened_def cap_read_def cap_release_def
      probe_finds_def classify_def emit_def split: option.split read_behaviour.split)

lemma test_camera_cases:
  "test_camera W i s =
     (if fits_c_int i then
        (case W (clock s) i of
           None \<Rightarrow>
             (Ret False,
              s\<lparr>clock := Suc (clock s),
                events := events s @ [EvOpenFailed i, EvPrint (TestNotAvailable i)]\<rparr>)
         | Some ss \<Rightarrow>
             (case s_read ss of
                Frame rows cols \<Rightarrow>
                  (Ret True,
                   s\<lparr>clock := Suc (clock s),
                     events := events s @
                       [EvOpen i, EvRead i, EvPrint (TestWorking i cols rows), EvRelease i]\<rparr>)
              | NoFrame \<Rightarrow>
                  (Ret False,
                   s\<lparr>clock := Suc (clock s),
                     events := events s @
                       [EvOpen i, EvRead i, EvPrint (TestNoFrames i), EvRelease i]\<rparr>)
              | Blocks \<Rightarrow>
                  (Hang,
                   s\<lparr>clock := Suc (clock s), events := events s @ [EvOpen i, EvRead i]\<rparr>)))
      else (Exc Cv2Error, s\<lparr>events := events s @ [EvRejected i]\<rparr>))"
  by (simp add: test_camera_def VideoCapture_def isOpened_def cap_read_def cap_release_def
      print_def emit_def split: option.split read_behaviour.split)

lemma get_camera_info_cases:
  "get_camera_info W i s =
     (if fits_c_int i then
        (case W (clock s) i of
           None \<Rightarrow>
             (Ret None, s\<lparr>clock := Suc (clock s), events := events s @ [EvOpenFailed i]\<rparr>)
         | Some ss \<Rightarrow>
             (Ret (Some (s_width ss, s_height ss, s_backend ss)),
              s\<lparr>clock := Suc (clock s), events := events s @ [EvOpen i, EvRelease i]\<rparr>))
      else (Exc Cv2Error, s\<lparr>events := events s @ [EvRejected i]\<rparr>))"
  by (simp add: get_camera_info_def VideoCapture_def isOpened_def cap_release_def emit_def
      split: option.split)

lemma probe_finds_fits: "probe_finds W t i \<noteq> Rejected \<longleftrightarrow> fits_c_int i"
  by (simp add: probe_finds_def classify_def split: option.split read_behaviour.split)

lemma fits_c_int_below: "fits_c_int (int k) \<Longrightarrow> j \<le> k \<Longrightarrow> fits_c_int (int j)"
  by (simp add: fits_c_int_def)

lemma handles_held_append:
  "handles_held (evs @ es) = foldl held_step (handles_held evs) es"
  by (simp add: handles_held_def)

lemma held_step_simps [simp]:
  "held_step h (EvOpen i) = i # h"
  "held_step h (EvRelease i) = remove1 i h"
  "held_step h (EvOpenFailed i) = h"
  "held_step h (EvRejected i) = h"
  "held_step h (EvRead i) = h"
  "held_step h (EvPrint m) = h"
  "held_step h (EvPrompt l) = h"
  by (simp_all add: held_step_def)

lemma always_from_start: "always_from P h es \<Longrightarrow> P h"
  by (cases es) auto

lemma always_from_append:
  "always_from P h (es @ es') = (always_from P h es \<and> always_from P (foldl held_step h es) es')"
  by (induction es arbitrary: h) (auto dest: always_from_start)

lemma prompts_append [simp]: "prompts (es @ es') = prompts es + prompts es'"
  by (simp add: prompts_def)

lemma steps_refl: "steps s (r, s)"
  unfolding steps_def
  by (rule exI [of _ 0], rule exI [of _ "[]"]) (simp add: prompts_def)

lemma steps_trans:
  assumes "steps s (r1, s1)" and "r1 \<noteq> Hang" and "steps s1 r"
  shows "steps s r"
proof -
  from assms(1,2) obtain k1 es1 where
    s1: "s1 = s\<lparr>clock := clock s + k1, events := events s @ es1\<rparr>" and
    a1: "always_from (\<lambda>h. length h \<le> 1) [] es1" and p1: "prompts es1 = 0" and
    b1: "foldl held_step [] es1 = []"
    by (auto simp: steps_def)
  from assms(3) obtain k2 es2 where
    s2: "snd r = s1\<lparr>clock := clock s1 + k2, events := events s1 @ es2\<rparr>" and
    a2: "always_from (\<lambda>h. length h \<le> 1) [] es2" and p2: "prompts es2 = 0" and
    b2: "fst r \<noteq> Hang \<longrightarrow> foldl held_step [] es2 = []"
    by (auto simp: steps_def)
  have "snd r = s\<lparr>clock := clock s + (k1 + k2), events := events s @ (es1 @ es2)\<rparr>"
    by (simp add: s2 s1)
  moreover have "always_from (\<lambda>h. length h \<le> 1) [] (es1 @ es2)"
    using a1 a2 b1 by (simp add: always_from_append)
  moreover have "prompts (es1 @ es2) = 0" by (simp add: p1 p2)
  moreover have "fst r \<noteq> Hang \<longrightarrow> foldl held_step [] (es1 @ es2) = []"
    using b2 by (simp add: b1)
  ultimately show ?thesis unfolding steps_def by blast
qed

lemma steps_cast: "steps s (r, s1) \<Longrightarrow> (r = Hang \<longleftrightarrow> r' = Hang) \<Longrightarrow> steps s (r', s1)"
  by (simp add: steps_def)

lemma steps_print: "steps s (r, print m s)"
  unfolding steps_def
  by (rule exI [of _ 0], rule exI [of _ "[EvPrint m]"])
     (simp add: print_def emit_def prompts_def is_prompt_def)

lemma steps_probe: "steps s (probe W i s)"
proof (cases "probe_finds W (clock s) i")
  case Unavailable
  then show ?thesis unfolding steps_def
    by (intro exI [of _ 1] exI [of _ "[EvOpenFailed i]"])
       (simp add: probe_cases prompts_def is_prompt_def)
next
  case OpensButNoFrame
  then show ?thesis unfolding steps_def
    by (intro exI [of _ 1] exI [of _ "[EvOpen i, EvRead i, EvRelease i]"])
       (simp add: probe_cases prompts_def is_prompt_def)
next
  case Working
  then show ?thesis unfolding steps_def
    by (intro exI [of _ 1] exI [of _ "[EvOpen i, EvRead i, EvRelease i]"])
       (simp add: probe_cases prompts_def is_prompt_def)
next
  case Unresponsive
  then show ?thesis unfolding steps_def
    by (intro exI [of _ 1] exI [of _ "[EvOpen i, EvRead i]"])
       (simp add: probe_cases prompts_def is_prompt_def)
next
  case Rejected
  then show ?thesis unfolding steps_def
    by (intro exI [of _ 0] exI [of _ "[EvRejected i]"])
       (simp add: probe_cases prompts_def is_prompt_def)
qed

lemma steps_scan: "steps s (scan W idxs acc s)"
proof (induction idxs arbitrary: acc s)
  case Nil
  show ?case by (simp add: steps_refl)
next
  case (Cons i idxs)
  obtain r s1 where p: "probe W i s = (r, s1)" by (cases "probe W i s")
  have sp: "steps s (r, s1)" using steps_probe [of s W i] by (simp add: p)
  show ?case
  proof (cases r)
    case (Ret ok)
    have "steps s1 (scan W idxs (if ok then acc @ [i] else acc) s1)" by (rule Cons.IH)
    with sp Ret have "steps s (scan W idxs (if ok then acc @ [i] else acc) s1)"
      by (auto intro: steps_trans)
    then show ?thesis by (simp add: p Ret)
  next
    case (Exc e)
    then show ?thesis using steps_cast [OF sp, of "Exc e"] by (simp add: p)
  next
    case Hang
    then show ?thesis using steps_cast [OF sp, of Hang] by (simp add: p)
  qed
qed

lemma scan_append:
  "scan W (xs @ ys) acc s =
     (case scan W xs acc s of
        (Ret acc', s') \<Rightarrow> scan W ys acc' s'
      | (Exc e, s') \<Rightarrow> (Exc e, s')
      | (Hang, s') \<Rightarrow> (Hang, s'))"
  by (induction xs arbitrary: acc s) (auto split: prod.splits result.splits)

text \<open>
  A scan of the indices below \<open>n\<close>: it never returns if it meets an unresponsive device,
  it raises the library's error if it meets an index the library refuses, and otherwise
  it returns the indices found working. (An unresponsive index fits a C int, so every
  index before it does, too.)
\<close>

lemma scan_upt:
  "(if \<exists>k<n. probe_finds W (clock s + k) (int k) = Unresponsive
    then fst (scan W (map int [0..<n]) [] s) = Hang
    else if \<exists>k<n. probe_finds W (clock s + k) (int k) = Rejected
    then fst (scan W (map int [0..<n]) [] s) = Exc Cv2Error
    else fst (scan W (map int [0..<n]) [] s) =
           Ret (filter (\<lambda>i. probe_finds W (clock s + nat i) i = Working) (map int [0..<n])) \<and>
         clock (snd (scan W (map int [0..<n]) [] s)) = clock s + n)"
proof (induction n)
  case 0
  show ?case by simp
next
  case (Suc n)
  let ?U = "\<lambda>m. \<exists>k<m. probe_finds W (clock s + k) (int k) = Unresponsive"
  let ?R = "\<lambda>m. \<exists>k<m. probe_finds W (clock s + k) (int k) = Rejected"
  obtain r s1 where sc: "scan W (map int [0..<n]) [] s = (r, s1)"
    by (cases "scan W (map int [0..<n]) [] s")
  show ?case
  proof (cases "?U n")
    case True
    with Suc have "r = Hang" by (simp add: sc)
    moreover from True have "?U (Suc n)" using less_Suc_eq by blast
    ultimately show ?thesis by (simp add: scan_append sc)
  next
    case noU: False
    show ?thesis
    proof (cases "?R n")
      case True
      with noU Suc have r: "r = Exc Cv2Error" by (auto simp: sc split: if_splits)
      from True obtain k where k: "k < n" "\<not> fits_c_int (int k)"
        using probe_finds_fits by blast
      have "\<not> fits_c_int (int n)" using k fits_c_int_below [of n k] by auto
      then have "probe_finds W (clock s + n) (int n) = Rejected"
        by (simp add: probe_finds_def)
      with noU have "\<not> ?U (Suc n)" by (auto simp: less_Suc_eq)
      moreover from True have "?R (Suc n)" using less_Suc_eq by blast
      ultimately show ?thesis by (simp add: scan_append sc r)
    next
      case noR: False
      with noU Suc have
        r: "r = Ret (filter (\<lambda>i. probe_finds W (clock s + nat i) i = Working) (map int [0..<n]))"
        and c: "clock s1 = clock s + n" by (auto simp: sc split: if_splits)
      show ?thesis
      proof (cases "probe_finds W (clock s + n) (int n)")
        case Unresponsive
        then have "?U (Suc n)" by blast
        then show ?thesis using Unresponsive by (simp add: scan_append sc r probe_cases c)
      next
        case Rejected
        with noU have "\<not> ?U (Suc n)" by (auto simp: less_Suc_eq)
        moreover from Rejected have "?R (Suc n)" by blast
        ultimately show ?thesis using Rejected by (simp add: scan_append sc r probe_cases c)
      next
        case Unavailable
        with noU noR have "\<not> ?U (Suc n)" "\<not> ?R (Suc n)" by (auto simp: less_Suc_eq)
        then show ?thesis using Unavailable by (simp add: scan_append sc r probe_cases c)
      next
        case OpensButNoFrame
        with noU noR have "\<not> ?U (Suc n)" "\<not> ?R (Suc n)" by (auto simp: less_Suc_eq)
        then show ?thesis using OpensButNoFrame by (simp add: scan_append sc r probe_cases c)
      next
        case Working
        with noU noR have "\<not> ?U (Suc n)" "\<not> ?R (Suc n)" by (auto simp: less_Suc_eq)
        then show ?thesis using Working by (simp add: scan_append sc r probe_cases c)
      qed
    qed
  qed
qed

lemma strict_sorted_last_Max:
  "sorted_wrt (<) xs \<Longrightarrow> xs \<noteq> [] \<Longrightarrow> last xs = Max (set xs)"
proof (induction xs)
  case Nil
  then show ?case by simp
next
  case (Cons x xs)
  show ?case
  proof (cases "xs = []")
    case True
    then show ?thesis by simp
  next
    case False
    with Cons have l: "last xs = Max (set xs)" by simp
    from False have "last xs \<in> set xs" by simp
    with Cons.prems have "x < last xs" by auto
    with l have "max x (Max (set xs)) = Max (set xs)" by simp
    with False l show ?thesis by simp
  qed
qed

lemma strict_sorted_hd_Min:
  "sorted_wrt (<) xs \<Longrightarrow> xs \<noteq> [] \<Longrightarrow> hd xs = Min (set xs)"
  by (cases xs) (auto intro!: Min_eqI [symmetric] simp: less_imp_le)

lemma strict_sorted_working:
  "sorted_wrt (<) (filter P (map int [0..<n]))"
  by (intro sorted_wrt_filter) (simp add: sorted_wrt_map)

lemma get_available_cameras_char:
  "(if \<exists>k<nat n. probe_finds W (clock s + k) (int k) = Unresponsive
    then fst (get_available_cameras W n s) = Hang
    else if \<exists>k<nat n. probe_finds W (clock s + k) (int k) = Rejected
    then fst (get_available_cameras W n s) = Exc Cv2Error
    else fst (get_available_cameras W n s) =
           Ret (filter (\<lambda>i. probe_finds W (clock s + nat i) i = Working) (py_range n)) \<and>
         clock (snd (get_available_cameras W n s)) = clock s + nat n)"
  unfolding get_available_cameras_def py_range_def by (rule scan_upt)

lemma get_available_cameras_Ret:
  assumes "get_available_cameras W n s = (Ret av, s1)"
  shows "av = filter (\<lambda>i. probe_finds W (clock s + nat i) i = Working) (py_range n)"
    and "clock s1 = clock s + nat n"
    and "list_all fits_c_int av"
proof -
  show a: "av = filter (\<lambda>i. probe_finds W (clock s + nat i) i = Working) (py_range n)"
    using get_available_cameras_char [of n W s] assms by (auto split: if_splits)
  show "clock s1 = clock s + nat n"
    using get_available_cameras_char [of n W s] assms by (auto split: if_splits)
  have "\<And>t i. probe_finds W t i = Working \<Longrightarrow> fits_c_int i"
    by (simp add: probe_finds_def split: if_splits)
  then show "list_all fits_c_int av" by (auto simp: a list_all_iff)
qed


section \<open>Handles held during a call\<close>

lemma one_at_a_timeI:
  assumes "events s' = events s @ es" "always_from (\<lambda>h. length h \<le> 1) [] es"
    "r = Hang \<or> foldl held_step [] es = []"
  shows "one_at_a_time s (r, s')"
  using assms by (simp add: one_at_a_time_def new_events_def)

lemma one_at_a_timeE:
  assumes "one_at_a_time s (r, s')"
  obtains es where "events s' = events s @ es" "always_from (\<lambda>h. length h \<le> 1) [] es"
    "r = Hang \<or> foldl held_step [] es = []"
  using assms by (auto simp: one_at_a_time_def)

lemma steps_one_at_a_time: "steps s r \<Longrightarrow> one_at_a_time s r"
  by (cases r) (auto simp: steps_def intro!: one_at_a_timeI)

lemma steps_stdin: "steps s r \<Longrightarrow> stdin (snd r) = stdin s"
  by (auto simp: steps_def)

lemma steps_prompts: "steps s r \<Longrightarrow> prompts (events (snd r)) = prompts (events s)"
  by (auto simp: steps_def)

lemma one_at_a_time_trans:
  assumes "one_at_a_time s (r1, s1)" "r1 \<noteq> Hang" "one_at_a_time s1 (r, s2)"
  shows "one_at_a_time s (r, s2)"
proof -
  from assms(1,2) obtain es1 where 1: "events s1 = events s @ es1"
    "always_from (\<lambda>h. length h \<le> 1) [] es1" "foldl held_step [] es1 = []"
    by (auto elim: one_at_a_timeE)
  from assms(3) obtain es2 where 2: "events s2 = events s1 @ es2"
    "always_from (\<lambda>h. length h \<le> 1) [] es2" "r = Hang \<or> foldl held_step [] es2 = []"
    by (auto elim: one_at_a_timeE)
  show ?thesis
  proof (rule one_at_a_timeI)
    show "events s2 = events s @ (es1 @ es2)" using 1 2 by simp
    show "always_from (\<lambda>h. length h \<le> 1) [] (es1 @ es2)"
      using 1 2 by (simp add: always_from_append)
    show "r = Hang \<or> foldl held_step [] (es1 @ es2) = []" using 1 2 by auto
  qed
qed

lemma one_at_a_time_prompt:
  "one_at_a_time s (r, emit (EvPrompt av) (s\<lparr>stdin := inp\<rparr>))"
  by (rule one_at_a_timeI [where es = "[EvPrompt av]"]) (simp_all add: emit_def)

lemma one_at_a_time_print: "one_at_a_time s (r, print m s)"
  by (rule one_at_a_timeI [where es = "[EvPrint m]"]) (simp_all add: print_def emit_def)

lemma get_camera_info_result:
  "(\<exists>info. fst (get_camera_info W i s) = Ret info) \<or> fst (get_camera_info W i s) = Exc Cv2Error"
  by (simp add: get_camera_info_cases split: option.split)

lemma steps_rejected: "steps s (r, s\<lparr>events := events s @ [EvRejected i]\<rparr>)"
  unfolding steps_def
  by (intro exI [of _ 0] exI [of _ "[EvRejected i]"]) (simp add: prompts_def is_prompt_def)

lemma steps_get_camera_info: "steps s (get_camera_info W i s)"
proof (cases "fits_c_int i")
  case False
  then show ?thesis by (simp add: get_camera_info_cases steps_rejected)
next
  case fits: True
  show ?thesis
  proof (cases "W (clock s) i")
    case None
    with fits show ?thesis unfolding steps_def
      by (intro exI [of _ 1] exI [of _ "[EvOpenFailed i]"])
         (simp add: get_camera_info_cases prompts_def is_prompt_def)
  next
    case (Some ss)
    with fits show ?thesis unfolding steps_def
      by (intro exI [of _ 1] exI [of _ "[EvOpen i, EvRelease i]"])
         (simp add: get_camera_info_cases prompts_def is_prompt_def)
  qed
qed

lemma steps_test_camera: "steps s (test_camera W i s)"
proof (cases "fits_c_int i")
  case False
  then show ?thesis by (simp add: test_camera_cases steps_rejected)
next
  case fits: True
  show ?thesis
  proof (cases "W (clock s) i")
    case None
    with fits show ?thesis unfolding steps_def
      by (intro exI [of _ 1] exI [of _ "[EvOpenFailed i, EvPrint (TestNotAvailable i)]"])
         (simp add: test_camera_cases prompts_def is_prompt_def)
  next
    case (Some ss)
    show ?thesis
    proof (cases "s_read ss")
      case (Frame rows cols)
      with Some fits show ?thesis unfolding steps_def
        by (intro exI [of _ 1]
            exI [of _ "[EvOpen i, EvRead i, EvPrint (TestWorking i cols rows), EvRelease i]"])
           (simp add: test_camera_cases prompts_def is_prompt_def)
    next
      case NoFrame
      with Some fits show ?thesis unfolding steps_def
        by (intro exI [of _ 1]
            exI [of _ "[EvOpen i, EvRead i, EvPrint (TestNoFrames i), EvRelease i]"])
           (simp add: test_camera_cases prompts_def is_prompt_def)
    next
      case Blocks
      with Some fits show ?thesis unfolding steps_def
        by (intro exI [of _ 1] exI [of _ "[EvOpen i, EvRead i]"])
           (simp add: test_camera_cases prompts_def is_prompt_def)
    qed
  qed
qed

lemma steps_then_print:
  assumes "steps s (r, s1)" "r \<noteq> Hang"
  shows "steps s (r', print m s1)"
  by (rule steps_trans [OF assms(1,2) steps_print])

lemma steps_show_cameras: "steps s (show_cameras W idxs s)"
proof (induction idxs arbitrary: s)
  case Nil
  show ?case by (simp add: steps_refl)
next
  case (Cons idx idxs)
  obtain r s1 where g: "get_camera_info W idx s = (r, s1)" by (cases "get_camera_info W idx s")
  have sg: "steps s (r, s1)" using steps_get_camera_info [of s W idx] by (simp add: g)
  from get_camera_info_result [of W idx s]
  consider info where "r = Ret info" | "r = Exc Cv2Error" by (auto simp: g)
  then show ?case
  proof cases
    case 1
    show ?thesis
    proof (cases info)
      case None
      have p: "steps s (Ret (), print (CameraAvailableLine idx) s1)"
        using sg 1 by (intro steps_then_print [of s r]) auto
      have "steps s (show_cameras W idxs (print (CameraAvailableLine idx) s1))"
        by (rule steps_trans [OF p _ Cons.IH]) simp
      then show ?thesis by (simp add: g 1 None)
    next
      case (Some whb)
      obtain w h b where whb: "whb = (w, h, b)" by (cases whb)
      have p: "steps s (Ret (), print (CameraLine idx w h b) s1)"
        using sg 1 by (intro steps_then_print [of s r]) auto
      have "steps s (show_cameras W idxs (print (CameraLine idx w h b) s1))"
        by (rule steps_trans [OF p _ Cons.IH]) simp
      then show ?thesis by (simp add: g 1 Some whb)
    qed
  next
    case 2
    then show ?thesis using steps_cast [OF sg, of "Exc Cv2Error :: unit result"]
      by (simp add: g)
  qed
qed

lemma show_cameras_Ret:
  "list_all fits_c_int idxs \<Longrightarrow> fst (show_cameras W idxs s) = Ret ()"
proof (induction idxs arbitrary: s)
  case Nil
  show ?case by simp
next
  case (Cons idx idxs)
  then show ?case
    by (cases "W (clock s) idx") (simp_all add: get_camera_info_cases)
qed

lemma show_cameras_clock:
  "list_all fits_c_int idxs \<Longrightarrow> clock (snd (show_cameras W idxs s)) = clock s + length idxs"
proof (induction idxs arbitrary: s)
  case Nil
  show ?case by simp
next
  case (Cons idx idxs)
  then show ?case
    by (cases "W (clock s) idx") (simp_all add: get_camera_info_cases print_simps)
qed

lemma steps_get_available_cameras: "steps s (get_available_cameras W n s)"
  unfolding get_available_cameras_def by (rule steps_scan)

lemma steps_select_from_available: "steps s (select_from_available pe av s)"
proof -
  have two: "\<And>(r :: int result) a b. steps s (r, print a (print b s))"
  proof -
    fix r :: "int result" and a b
    have "steps s (Ret (), print b s)" by (rule steps_print)
    then show "steps s (r, print a (print b s))" by (rule steps_then_print) simp
  qed
  show ?thesis
    by (simp add: select_from_available_def steps_refl steps_print two)
qed

lemma steps_select_best_camera: "steps s (select_best_camera W pe s)"
proof -
  obtain r s1 where g: "get_available_cameras W default_max_test s = (r, s1)"
    by (cases "get_available_cameras W default_max_test s")
  have sg: "steps s (r, s1)" using steps_get_available_cameras [of s W default_max_test]
    by (simp add: g)
  show ?thesis
  proof (cases r)
    case (Ret av)
    have "steps s (select_from_available pe av s1)"
      by (rule steps_trans [OF sg _ steps_select_from_available]) (simp add: Ret)
    then show ?thesis by (simp add: select_best_camera_def g Ret)
  next
    case (Exc e)
    then show ?thesis using steps_cast [OF sg, of "Exc e"]
      by (simp add: select_best_camera_def g)
  next
    case Hang
    then show ?thesis using steps_cast [OF sg, of Hang]
      by (simp add: select_best_camera_def g)
  qed
qed

lemma open_index_opened:
  "fits_c_int i \<Longrightarrow> W (clock s) i = Some ss \<Longrightarrow>
     open_index W i s =
       (Ret \<lparr>cap_index = i, cap_session = Some ss\<rparr>,
        (case W (Suc (clock s)) i of
           None \<Rightarrow>
             s\<lparr>clock := Suc (Suc (clock s)), events := events s @ [EvOpen i, EvOpenFailed i]\<rparr>
         | Some ss' \<Rightarrow>
             s\<lparr>clock := Suc (Suc (clock s)),
               events := events s @
                 [EvOpen i, EvOpen i, EvRelease i,
                  EvPrint (CameraOpened i (s_width ss') (s_height ss') (s_backend ss'))]\<rparr>))"
  by (simp add: open_index_def VideoCapture_def isOpened_def get_camera_info_cases emit_def
      print_def split: option.split)

lemma open_index_failed:
  "fits_c_int i \<Longrightarrow> W (clock s) i = None \<Longrightarrow>
     open_index W i s =
       (case get_available_cameras W default_max_test
               (s\<lparr>clock := Suc (clock s), events := events s @ [EvOpenFailed i]\<rparr>) of
          (Ret av, s2) \<Rightarrow> (Exc (RuntimeError (FailedToOpen i av)), s2)
        | (Exc e, s2) \<Rightarrow> (Exc e, s2)
        | (Hang, s2) \<Rightarrow> (Hang, s2))"
  by (simp add: open_index_def VideoCapture_def isOpened_def emit_def)

lemma open_index_rejected:
  "\<not> fits_c_int i \<Longrightarrow>
     open_index W i s = (Exc Cv2Error, s\<lparr>events := events s @ [EvRejected i]\<rparr>)"
  by (simp add: open_index_def VideoCapture_def emit_def)

lemma always_from_mono:
  "always_from P h es \<Longrightarrow> (\<And>h. P h \<Longrightarrow> Q h) \<Longrightarrow> always_from Q h es"
  by (induction es arbitrary: h) auto

lemma short_twin_at_most: "length h \<le> 1 \<Longrightarrow> twin_at_most h"
  by (auto simp: twin_at_most_def split: list.splits)

lemma open_disciplineI:
  assumes "events s' = events s @ es" "always_from twin_at_most [] es"
    "case r of Ret c \<Rightarrow> isOpened c \<and> foldl held_step [] es = [cap_index c]
     | Exc e \<Rightarrow> foldl held_step [] es = [] | Hang \<Rightarrow> True"
  shows "open_discipline s (r, s')"
  using assms by (cases r) (simp_all add: open_discipline_def new_events_def)

lemma steps_open_discipline:
  assumes "steps s (r, s1)" "r = Hang \<longleftrightarrow> r' = Hang" "\<And>c. r' \<noteq> Ret c"
  shows "open_discipline s (r', s1)"
proof -
  from assms(1) obtain k es where
    s1: "s1 = s\<lparr>clock := clock s + k, events := events s @ es\<rparr>" and
    a: "always_from (\<lambda>h. length h \<le> 1) [] es" and
    b: "r \<noteq> Hang \<longrightarrow> foldl held_step [] es = []"
    by (auto simp: steps_def)
  show ?thesis
  proof (rule open_disciplineI [where es = es])
    show "events s1 = events s @ es" by (simp add: s1)
    show "always_from twin_at_most [] es"
      using a by (rule always_from_mono) (rule short_twin_at_most)
    show "case r' of Ret c \<Rightarrow> isOpened c \<and> foldl held_step [] es = [cap_index c]
     | Exc e \<Rightarrow> foldl held_step [] es = [] | Hang \<Rightarrow> True"
      using assms(2,3) b by (cases r') auto
  qed
qed

lemma open_discipline_after_steps:
  assumes "steps s (r1, s1)" "r1 \<noteq> Hang" "open_discipline s1 (r, s2)"
  shows "open_discipline s (r, s2)"
proof -
  from assms(1,2) obtain k es1 where
    s1: "s1 = s\<lparr>clock := clock s + k, events := events s @ es1\<rparr>" and
    a: "always_from (\<lambda>h. length h \<le> 1) [] es1" and
    b: "foldl held_step [] es1 = []"
    by (auto simp: steps_def)
  define es2 where "es2 = new_events s1 s2"
  from assms(3) have e2: "events s2 = events s1 @ es2" and a2: "always_from twin_at_most [] es2"
    and c2: "case r of Ret c \<Rightarrow> isOpened c \<and> foldl held_step [] es2 = [cap_index c]
     | Exc e \<Rightarrow> foldl held_step [] es2 = [] | Hang \<Rightarrow> True"
    by (cases r; simp add: open_discipline_def es2_def)+
  show ?thesis
  proof (rule open_disciplineI [where es = "es1 @ es2"])
    show "events s2 = events s @ es1 @ es2" by (simp add: e2 s1)
    have "always_from twin_at_most [] es1"
      using a by (rule always_from_mono) (rule short_twin_at_most)
    then show "always_from twin_at_most [] (es1 @ es2)"
      using a2 b by (simp add: always_from_append)
    show "case r of Ret c \<Rightarrow> isOpened c \<and> foldl held_step [] (es1 @ es2) = [cap_index c]
     | Exc e \<Rightarrow> foldl held_step [] (es1 @ es2) = [] | Hang \<Rightarrow> True"
      using c2 b by (cases r) auto
  qed
qed

lemma open_discipline_open_index: "open_discipline s (open_index W i s)"
proof (cases "fits_c_int i")
  case False
  then show ?thesis
    using steps_open_discipline [OF steps_rejected [of s "Ret ()" i], of "Exc Cv2Error"]
    by (simp add: open_index_rejected)
next
  case fits: True
  show ?thesis
  proof (cases "W (clock s) i")
    case (Some ss)
    show ?thesis
    proof (cases "W (Suc (clock s)) i")
      case None
      with Some fits show ?thesis
        by (simp add: open_index_opened open_discipline_def new_events_def twin_at_most_def
            isOpened_def)
    next
      case (Some ss')
      with \<open>W (clock s) i = Some ss\<close> fits show ?thesis
        by (simp add: open_index_opened open_discipline_def new_events_def twin_at_most_def
            isOpened_def)
    qed
  next
    case None
    let ?s1 = "s\<lparr>clock := Suc (clock s), events := events s @ [EvOpenFailed i]\<rparr>"
    obtain r s2 where g: "get_available_cameras W default_max_test ?s1 = (r, s2)"
      by (cases "get_available_cameras W default_max_test ?s1")
    have sg: "steps ?s1 (r, s2)"
      using steps_get_available_cameras [of ?s1 W default_max_test] by (simp add: g)
    have s0: "steps s (Ret (), ?s1)" unfolding steps_def
      by (intro exI [of _ 1] exI [of _ "[EvOpenFailed i]"]) (simp add: prompts_def is_prompt_def)
    have st: "steps s (r, s2)" by (rule steps_trans [OF s0 _ sg]) simp
    show ?thesis
    proof (cases r)
      case (Ret av)
      then show ?thesis
        using steps_open_discipline [OF st, of "Exc (RuntimeError (FailedToOpen i av))"]
        by (simp add: open_index_failed fits None g)
    next
      case (Exc e)
      then show ?thesis using steps_open_discipline [OF st, of "Exc e"]
        by (simp add: open_index_failed fits None g)
    next
      case Hang
      then show ?thesis using steps_open_discipline [OF st, of Hang]
        by (simp add: open_index_failed fits None g)
    qed
  qed
qed

lemma open_discipline_open_camera: "open_discipline s (open_camera W ci pe s)"
proof (cases ci)
  case (Some i)
  then show ?thesis by (simp add: open_camera_def open_discipline_open_index)
next
  case None
  obtain r s1 where g: "select_best_camera W pe s = (r, s1)"
    by (cases "select_best_camera W pe s")
  have sg: "steps s (r, s1)" using steps_select_best_camera [of s W pe] by (simp add: g)
  show ?thesis
  proof (cases r)
    case (Ret i)
    obtain x s2 where o: "open_index W i s1 = (x, s2)" by (cases "open_index W i s1")
    have "open_discipline s1 (x, s2)" using open_discipline_open_index [of s1 W i] by (simp add: o)
    then have "open_discipline s (x, s2)"
      by (rule open_discipline_after_steps [OF sg, rotated]) (simp add: Ret)
    then show ?thesis by (simp add: open_camera_def None g Ret o)
  next
    case (Exc e)
    then show ?thesis using steps_open_discipline [OF sg, of "Exc e"]
      by (simp add: open_camera_def None g)
  next
    case Hang
    then show ?thesis using steps_open_discipline [OF sg, of Hang]
      by (simp add: open_camera_def None g)
  qed
qed

lemma steps_new_events_hd:
  assumes "steps s1 (r, s2)" "events s1 = events s @ [e]"
  shows "take 1 (new_events s s2) = [e]"
  using assms by (auto simp: steps_def new_events_def)

section \<open>The prompt loop\<close>



lemma one_at_a_time_prompt_loop: "one_at_a_time s (prompt_loop W av script s)"
proof (induction script arbitrary: s)
  case Nil
  show ?case by (simp add: one_at_a_time_prompt)
next
  case (Cons r rest)
  let ?s1 = "emit (EvPrompt av) (s\<lparr>stdin := rest\<rparr>)"
  have p: "\<And>x :: unit result. one_at_a_time s (x, ?s1)" by (rule one_at_a_time_prompt)
  have pp: "\<And>m. one_at_a_time s (Ret (), print m ?s1)"
    by (rule one_at_a_time_trans [OF p [of "Ret ()"] _ one_at_a_time_print]) simp
  have cont: "\<And>m. one_at_a_time s (prompt_loop W av rest (print m ?s1))"
  proof -
    fix m
    obtain x s2 where e: "prompt_loop W av rest (print m ?s1) = (x, s2)"
      by (cases "prompt_loop W av rest (print m ?s1)")
    have "one_at_a_time (print m ?s1) (x, s2)" using Cons.IH [of "print m ?s1"] by (simp add: e)
    from one_at_a_time_trans [OF pp _ this] show "one_at_a_time s (prompt_loop W av rest (print m ?s1))"
      by (simp add: e)
  qed
  have auto_sel: "one_at_a_time s (select_best_camera W True ?s1)"
  proof -
    obtain x s2 where e: "select_best_camera W True ?s1 = (x, s2)"
      by (cases "select_best_camera W True ?s1")
    have "one_at_a_time ?s1 (x, s2)"
      using steps_one_at_a_time [OF steps_select_best_camera [of ?s1 W True]] by (simp add: e)
    from one_at_a_time_trans [OF p [of "Ret ()"] _ this] show ?thesis by (simp add: e)
  qed
  show ?case
  proof (cases r)
    case Interrupt
    have "one_at_a_time s (Exc KeyboardInterrupt :: int result, print Cancelled ?s1)"
      by (rule one_at_a_time_trans [OF p [of "Ret ()"] _ one_at_a_time_print]) simp
    then show ?thesis by (simp add: Interrupt)
  next
    case (Line l)
    show ?thesis
    proof (cases "py_strip l = []")
      case True
      then show ?thesis using auto_sel by (simp add: Line)
    next
      case False
      show ?thesis
      proof (cases "py_int (py_strip l)")
        case None
        then show ?thesis using cont False by (simp add: Line)
      next
        case (Some idx)
        have "one_at_a_time s (Ret idx, ?s1)" by (rule one_at_a_time_prompt)
        then show ?thesis using cont False Some by (simp add: Line Let_def)
      qed
    qed
  qed
qed

lemma one_at_a_time_list_cameras_interactive:
  "one_at_a_time s (list_cameras_interactive W s)"
proof -
  obtain r s1 where g: "get_available_cameras W default_max_test s = (r, s1)"
    by (cases "get_available_cameras W default_max_test s")
  have sg: "steps s (r, s1)" using steps_get_available_cameras [of s W default_max_test]
    by (simp add: g)
  show ?thesis
  proof (cases r)
    case (Ret av)
    let ?s1' = "print RuleLine (print AvailableHeader s1)"
    have fits: "list_all fits_c_int av"
      using get_available_cameras_Ret(3) [of W default_max_test s av s1] g Ret by simp
    obtain s2 where sh: "show_cameras W av ?s1' = (Ret (), s2)"
      using show_cameras_Ret [OF fits, of W ?s1'] by (cases "show_cameras W av ?s1'") auto
    have a: "steps s (Ret (), print AvailableHeader s1)"
      by (rule steps_then_print [OF sg]) (simp add: Ret)
    have b: "steps s (Ret (), ?s1')" by (rule steps_then_print [OF a]) simp
    have c: "steps s (Ret (), s2)"
      using steps_trans [OF b _ steps_show_cameras [of ?s1' W av]] by (simp add: sh)
    have d: "steps s (Ret (), print RuleLine s2)" by (rule steps_then_print [OF c]) simp
    have e: "steps s (Ret (hd av), print (OnlyOneAvailable (hd av)) (print RuleLine s2))"
      by (rule steps_then_print [OF d]) simp
    obtain x s4 where pl: "prompt_loop W av (stdin (print RuleLine s2)) (print RuleLine s2) = (x, s4)"
      by (cases "prompt_loop W av (stdin (print RuleLine s2)) (print RuleLine s2)")
    have "one_at_a_time (print RuleLine s2) (x, s4)"
      using one_at_a_time_prompt_loop [of "print RuleLine s2" W av "stdin (print RuleLine s2)"]
      by (simp add: pl)
    then have f: "one_at_a_time s (x, s4)"
      by (rule one_at_a_time_trans [OF steps_one_at_a_time [OF d], rotated]) simp
    show ?thesis
      using steps_one_at_a_time [OF steps_cast [OF sg, of "Exc (RuntimeError NoCamerasDetected) :: int result"]]
        steps_one_at_a_time [OF e] f
      by (simp add: list_cameras_interactive_def g Ret sh pl Let_def)
  next
    case (Exc e)
    then show ?thesis using steps_one_at_a_time [OF steps_cast [OF sg, of "Exc e :: int result"]]
      by (simp add: list_cameras_interactive_def g)
  next
    case Hang
    then show ?thesis using steps_one_at_a_time [OF steps_cast [OF sg, of "Hang :: int result"]]
      by (simp add: list_cameras_interactive_def g)
  qed
qed



lemma listing_after_scan:
  assumes "get_available_cameras W default_max_test s = (Ret av, s1)"
  obtains s2 where
    "show_cameras W av (print RuleLine (print AvailableHeader s1)) = (Ret (), s2)"
    "steps s (Ret (), print RuleLine s2)"
    "clock s2 = clock s + nat default_max_test + length av"
proof -
  let ?s1' = "print RuleLine (print AvailableHeader s1)"
  have fits: "list_all fits_c_int av" by (rule get_available_cameras_Ret(3) [OF assms])
  obtain s2 where sh: "show_cameras W av ?s1' = (Ret (), s2)"
    using show_cameras_Ret [OF fits, of W ?s1'] by (cases "show_cameras W av ?s1'") auto
  have sg: "steps s (Ret av, s1)"
    using steps_get_available_cameras [of s W default_max_test] by (simp add: assms)
  have a: "steps s (Ret (), print AvailableHeader s1)" by (rule steps_then_print [OF sg]) simp
  have b: "steps s (Ret (), ?s1')" by (rule steps_then_print [OF a]) simp
  have c: "steps s (Ret (), s2)"
    using steps_trans [OF b _ steps_show_cameras [of ?s1' W av]] by (simp add: sh)
  have d: "steps s (Ret (), print RuleLine s2)" by (rule steps_then_print [OF c]) simp
  have "clock s2 = clock ?s1' + length av"
    using show_cameras_clock [OF fits, of W ?s1'] by (simp add: sh)
  then have e: "clock s2 = clock s + nat default_max_test + length av"
    using get_available_cameras_Ret(2) [OF assms] by (simp add: print_simps)
  from sh d e show ?thesis by (rule that)
qed

section \<open>The probe\<close>

text \<open>
  Claim C1. Every probe gives back the handle it opened before it returns, whatever it
  finds: the loop body of get_available_cameras, test_camera and get_camera_info each
  return with exactly the handles held that were held before the call, when the device
  does not open (no handle was taken), when it opens and the read fails, and when the
  read succeeds. The events of the loop body are an open followed by a read and a
  release, or a single failed open. For an index the library refuses, the call that
  would create the capture raises the library's error: no handle ever exists and the
  handles held are unchanged as well.
\<close>

theorem probe_never_leaks:
  "probe_finds W (clock s) i \<noteq> Unresponsive \<Longrightarrow>
     (fits_c_int i \<longrightarrow>
        (\<exists>b s'. probe W i s = (Ret b, s') \<and>
           (b \<longleftrightarrow> probe_finds W (clock s) i = Working) \<and>
           handles_held (events s') = handles_held (events s) \<and>
           new_events s s' =
             (if probe_finds W (clock s) i = Unavailable then [EvOpenFailed i]
              else [EvOpen i, EvRead i, EvRelease i])) \<and>
        (\<exists>b s'. test_camera W i s = (Ret b, s') \<and>
           (b \<longleftrightarrow> probe_finds W (clock s) i = Working) \<and>
           handles_held (events s') = handles_held (events s)) \<and>
        (\<exists>r s'. get_camera_info W i s = (Ret r, s') \<and>
           (r = None \<longleftrightarrow> probe_finds W (clock s) i = Unavailable) \<and>
           handles_held (events s') = handles_held (events s))) \<and>
     (\<not> fits_c_int i \<longrightarrow>
        probe W i s = (Exc Cv2Error, emit (EvRejected i) s) \<and>
        test_camera W i s = (Exc Cv2Error, emit (EvRejected i) s) \<and>
        get_camera_info W i s = (Exc Cv2Error, emit (EvRejected i) s)) \<and>
     handles_held (events (snd (probe W i s))) = handles_held (events s) \<and>
     handles_held (events (snd (test_camera W i s))) = handles_held (events s) \<and>
     handles_held (events (snd (get_camera_info W i s))) = handles_held (events s)"
  by (auto simp add: probe_cases test_camera_cases get_camera_info_cases probe_finds_def
      classify_def handles_held_append new_events_def emit_def
      split: option.splits read_behaviour.splits)

theorem probe_never_leaks_witness:
  "probe_finds demo_world (clock (init_state [])) 1 \<noteq> Unresponsive \<and>
   fits_c_int 1 \<and>
   probe demo_world 1 (init_state []) =
     (Ret False, \<lparr>clock = 1, events = [EvOpen 1, EvRead 1, EvRelease 1], stdin = []\<rparr>) \<and>
   (\<exists>b s'. probe demo_world 1 (init_state []) = (Ret b, s') \<and>
      (b \<longleftrightarrow> probe_finds demo_world (clock (init_state [])) 1 = Working) \<and>
      handles_held (events s') = handles_held (events (init_state [])) \<and>
      new_events (init_state []) s' =
        (if probe_finds demo_world (clock (init_state [])) 1 = Unavailable then [EvOpenFailed 1]
         else [EvOpen 1, EvRead 1, EvRelease 1])) \<and>
   handles_held (events (snd (probe demo_world 1 (init_state [])))) =
     handles_held (events (init_state []))"
proof -
  have h: "probe_finds demo_world (clock (init_state [])) 1 \<noteq> Unresponsive"
    by (simp add: probe_finds_def fits_c_int_def demo_world_def classify_def)
  have f: "fits_c_int 1" by (simp add: fits_c_int_def)
  have v: "probe demo_world 1 (init_state []) =
     (Ret False, \<lparr>clock = 1, events = [EvOpen 1, EvRead 1, EvRelease 1], stdin = []\<rparr>)"
    by (simp add: probe_cases probe_finds_def fits_c_int_def demo_world_def classify_def
        init_state_def)
  from h f v probe_never_leaks [of demo_world "init_state []" 1] show ?thesis by blast
qed

section \<open>Enumeration\<close>

text \<open>
  Claim C2. For every scan bound and every world in which each probed index is found
  unavailable, opening without a frame, or working, get_available_cameras returns the
  list of exactly those indices below the bound whose probe found a working device. The
  list is strictly ascending, has no duplicates, is a subsequence of the scanned range,
  and has at most as many entries as the bound. A bound of zero or less gives the empty
  list. (The two other things a probe can meet, a read that never returns and an index
  the library refuses, are none of the three outcomes.)
\<close>

theorem enumerate_working_ascending:
  assumes "\<forall>k<nat bound. probe_finds W (clock s + k) (int k) \<noteq> Unresponsive \<and>
                          probe_finds W (clock s + k) (int k) \<noteq> Rejected"
  shows "\<exists>av s'. get_available_cameras W bound s = (Ret av, s') \<and>
           av = filter (\<lambda>i. probe_finds W (clock s + nat i) i = Working) (py_range bound) \<and>
           sorted_wrt (<) av \<and> distinct av \<and> subseq av (py_range bound) \<and>
           set av \<subseteq> {0..<bound} \<and> length av \<le> nat bound"
proof -
  let ?av = "filter (\<lambda>i. probe_finds W (clock s + nat i) i = Working) (py_range bound)"
  from assms have nU: "\<not> (\<exists>k<nat bound. probe_finds W (clock s + k) (int k) = Unresponsive)"
    and nR: "\<not> (\<exists>k<nat bound. probe_finds W (clock s + k) (int k) = Rejected)"
    by blast+
  have "fst (get_available_cameras W bound s) = Ret ?av"
    using get_available_cameras_char [of bound W s] nU nR by (simp only: if_False)
  then have "get_available_cameras W bound s = (Ret ?av, snd (get_available_cameras W bound s))"
    by (metis prod.collapse)
  moreover have so: "sorted_wrt (<) ?av"
    unfolding py_range_def by (rule strict_sorted_working)
  moreover from so have "distinct ?av" by (simp add: strict_sorted_iff)
  moreover have "subseq ?av (py_range bound)" by (rule subseq_filter_left)
  moreover have "set ?av \<subseteq> {0..<bound}" by (auto simp: py_range_def)
  moreover have "length ?av \<le> nat bound"
    using length_filter_le [of _ "py_range bound"] by (simp add: py_range_def)
  ultimately show ?thesis by blast
qed

theorem enumerate_working_ascending_witness:
  "fst (get_available_cameras demo_world 5 (init_state [])) = Ret [0, 2] \<and>
   (\<exists>av s'. get_available_cameras demo_world 5 (init_state []) = (Ret av, s') \<and>
      av = filter (\<lambda>i. probe_finds demo_world (clock (init_state []) + nat i) i = Working)
             (py_range 5) \<and>
      sorted_wrt (<) av \<and> distinct av \<and> subseq av (py_range 5) \<and>
      set av \<subseteq> {0..<5} \<and> length av \<le> nat 5)"
proof -
  have h: "\<forall>k<nat 5. probe_finds demo_world (clock (init_state []) + k) (int k) \<noteq> Unresponsive \<and>
                     probe_finds demo_world (clock (init_state []) + k) (int k) \<noteq> Rejected"
    by (simp add: probe_finds_def fits_c_int_def demo_world_def classify_def)
  have v: "fst (get_available_cameras demo_world 5 (init_state [])) = Ret [0, 2]"
    by code_simp
  from v enumerate_working_ascending [OF h] show ?thesis by blast
qed

section \<open>Automatic selection\<close>

text \<open>
  Claim C3. On a strictly ascending device list, automatic selection fails with the
  no-cameras error when the list is empty, returns the single entry when there is one,
  and with several entries returns the largest index when external cameras are
  preferred and the smallest when built-in cameras are preferred. select_best_camera is
  this selection applied to the list it has just enumerated.
\<close>

theorem select_auto_policy:
  assumes "sorted_wrt (<) av"
  shows "(av = [] \<longrightarrow>
            select_from_available pe av s = (Exc (RuntimeError NoCamerasPleaseConnect), s)) \<and>
         (length av = 1 \<longrightarrow> fst (select_from_available pe av s) = Ret (hd av)) \<and>
         (1 < length av \<longrightarrow>
            fst (select_from_available True av s) = Ret (Max (set av)) \<and>
            fst (select_from_available False av s) = Ret (Min (set av))) \<and>
         (\<forall>W s0. get_available_cameras W default_max_test s0 = (Ret av, s) \<longrightarrow>
            select_best_camera W pe s0 = select_from_available pe av s)"
proof -
  have "1 < length av \<Longrightarrow> av \<noteq> []" by auto
  with assms show ?thesis
    by (auto simp: select_from_available_def select_best_camera_def
        strict_sorted_last_Max strict_sorted_hd_Min)
qed

theorem select_auto_policy_witness:
  "sorted_wrt (<) [0, 2 :: int] \<and>
   fst (select_from_available True [0, 2] (init_state [])) = Ret 2 \<and>
   fst (select_from_available False [0, 2] (init_state [])) = Ret 0 \<and>
   fst (select_from_available True [3] (init_state [])) = Ret 3 \<and>
   fst (select_from_available True [] (init_state [])) = Exc (RuntimeError NoCamerasPleaseConnect) \<and>
   fst (select_best_camera demo_world True (init_state [])) = Ret 2"
proof -
  have a: "sorted_wrt (<) [0, 2 :: int]" by simp
  have b: "sorted_wrt (<) [3 :: int]" by simp
  have c: "sorted_wrt (<) ([] :: int list)" by simp
  have m: "Max (set [0, 2 :: int]) = 2" "Min (set [0, 2 :: int]) = 0" by simp_all
  have g: "get_available_cameras demo_world default_max_test (init_state []) =
    (Ret [0, 2], snd (get_available_cameras demo_world default_max_test (init_state [])))"
    by code_simp
  have e: "fst (select_from_available True [0, 2] (snd (get_available_cameras demo_world default_max_test (init_state [])))) = Ret 2"
    using select_auto_policy [OF a] m by simp
  show ?thesis
    using select_auto_policy [OF a, of True "init_state []"]
      select_auto_policy [OF a, of True "snd (get_available_cameras demo_world default_max_test (init_state []))"]
      select_auto_policy [OF b, of True "init_state []"]
      select_auto_policy [OF c, of True "init_state []"] m g e
    by simp
qed

section \<open>A read that never returns\<close>

text \<open>
  Claim C4, as stated, fails: the probe reads a frame with no timeout of its own, so with
  a device whose read never returns neither the probe nor the enumeration returns.
\<close>

theorem probe_blocks_forever_counterexample:
  "probe_finds stuck_world (clock (init_state [])) 0 = Unresponsive \<and>
   fst (probe stuck_world 0 (init_state [])) = Hang \<and>
   fst (probe stuck_world 0 (init_state [])) \<noteq> Ret False \<and>
   fst (get_available_cameras stuck_world default_max_test (init_state [])) = Hang"
  by (simp add: stuck_world_def classify_def probe_finds_def fits_c_int_def probe_cases
      init_state_def get_available_cameras_def py_range_def default_max_test_def upt_rec)

text \<open>
  Claim C4, amended. The probe returns exactly when the frame read of the device
  returns: it does not return when the read blocks, it answers true when the read
  delivers a frame and false when the device does not open or the read fails. The
  enumeration does not return exactly when a probed device blocks; it returns a list
  exactly when no probed device blocks and the library refuses no probed index.
\<close>

theorem probe_returns_iff_read_returns:
  "(fst (probe W i s) = Hang \<longleftrightarrow> probe_finds W (clock s) i = Unresponsive) \<and>
   (fst (probe W i s) = Ret True \<longleftrightarrow> probe_finds W (clock s) i = Working) \<and>
   (fst (probe W i s) = Ret False \<longleftrightarrow>
      probe_finds W (clock s) i = Unavailable \<or> probe_finds W (clock s) i = OpensButNoFrame) \<and>
   (fst (get_available_cameras W n s) = Hang \<longleftrightarrow>
      (\<exists>k<nat n. probe_finds W (clock s + k) (int k) = Unresponsive)) \<and>
   ((\<exists>av. fst (get_available_cameras W n s) = Ret av) \<longleftrightarrow>
      \<not> (\<exists>k<nat n. probe_finds W (clock s + k) (int k) = Unresponsive) \<and>
      \<not> (\<exists>k<nat n. probe_finds W (clock s + k) (int k) = Rejected))"
proof -
  have p: "(fst (probe W i s) = Hang \<longleftrightarrow> probe_finds W (clock s) i = Unresponsive) \<and>
   (fst (probe W i s) = Ret True \<longleftrightarrow> probe_finds W (clock s) i = Working) \<and>
   (fst (probe W i s) = Ret False \<longleftrightarrow>
      probe_finds W (clock s) i = Unavailable \<or> probe_finds W (clock s) i = OpensButNoFrame)"
    by (simp add: probe_cases split: probe_outcome.split)
  let ?U = "\<exists>k<nat n. probe_finds W (clock s + k) (int k) = Unresponsive"
  let ?R = "\<exists>k<nat n. probe_finds W (clock s + k) (int k) = Rejected"
  have g: "(fst (get_available_cameras W n s) = Hang \<longleftrightarrow> ?U) \<and>
   ((\<exists>av. fst (get_available_cameras W n s) = Ret av) \<longleftrightarrow> \<not> ?U \<and> \<not> ?R)"
  proof (cases ?U)
    case True
    then have "fst (get_available_cameras W n s) = Hang"
      using get_available_cameras_char [of n W s] by (simp only: if_True)
    with True show ?thesis by simp
  next
    case noU: False
    show ?thesis
    proof (cases ?R)
      case True
      then have "fst (get_available_cameras W n s) = Exc Cv2Error"
        using get_available_cameras_char [of n W s] noU by (simp only: if_True if_False)
      with noU True show ?thesis by simp
    next
      case False
      then have "\<exists>av. fst (get_available_cameras W n s) = Ret av"
        using get_available_cameras_char [of n W s] noU by (simp only: if_False) blast
      with noU False show ?thesis by auto
    qed
  qed
  from p g show ?thesis by blast
qed

theorem probe_returns_iff_read_returns_witness:
  "fst (probe demo_world 1 (init_state [])) = Ret False \<and>
   fst (probe demo_world 1 (init_state [])) \<noteq> Hang \<and>
   (\<exists>av. fst (get_available_cameras demo_world 5 (init_state [])) = Ret av)"
proof -
  have c: "probe_finds demo_world (clock (init_state [])) 1 = OpensButNoFrame"
    by (simp add: probe_finds_def fits_c_int_def demo_world_def classify_def)
  have n: "\<not> (\<exists>k<nat 5. probe_finds demo_world (clock (init_state []) + k) (int k) = Unresponsive)"
    "\<not> (\<exists>k<nat 5. probe_finds demo_world (clock (init_state []) + k) (int k) = Rejected)"
    by (simp_all add: probe_finds_def fits_c_int_def demo_world_def classify_def)
  from c n probe_returns_iff_read_returns [of demo_world 1 "init_state []" 5]
  show ?thesis by simp
qed

section \<open>Handles held at any one time\<close>

text \<open>
  Claim C5, as stated, fails: open_camera keeps the capture it has opened and then calls
  get_camera_info for the same index, which opens a second capture there. Where the
  device allows a second open, two handles on the index are held at once.
\<close>

theorem open_holds_two_handles_counterexample:
  "new_events (init_state []) (snd (open_camera demo_world (Some 0) True (init_state []))) =
     [EvOpen 0, EvOpen 0, EvRelease 0, EvPrint (CameraOpened 0 640 480 ''V4L2'')] \<and>
   handles_held [EvOpen 0, EvOpen 0] = [0, 0] \<and>
   \<not> always_from distinct [] (events (snd (open_camera demo_world (Some 0) True (init_state []))))"
  by (simp add: open_camera_def open_index_opened [where ss = "the (demo_world 0 0)"]
      fits_c_int_def demo_world_def init_state_def new_events_def handles_held_def)

text \<open>
  Claim C5, amended. While probing, enumerating and selecting (automatically or
  interactively) at most one handle is held at any moment, and none is left when the
  operation ends. While opening a camera at most two handles are held, and two only on
  the same index, during the query for the camera's characteristics; when open_camera
  returns, the returned capture is open and its handle is the only one held, and when it
  raises none is held.
\<close>

theorem handles_held_during_operations:
  "one_at_a_time s (probe W i s) \<and>
   one_at_a_time s (test_camera W i s) \<and>
   one_at_a_time s (get_camera_info W i s) \<and>
   one_at_a_time s (get_available_cameras W n s) \<and>
   one_at_a_time s (select_best_camera W pe s) \<and>
   one_at_a_time s (list_cameras_interactive W s) \<and>
   open_discipline s (open_camera W ci pe s)"
  by (intro conjI steps_one_at_a_time steps_probe steps_test_camera steps_get_camera_info
      steps_get_available_cameras steps_select_best_camera
      one_at_a_time_list_cameras_interactive open_discipline_open_camera)

theorem handles_held_during_operations_witness:
  "one_at_a_time (init_state [Line ''2'']) (list_cameras_interactive demo_world (init_state [Line ''2''])) \<and>
   open_discipline (init_state []) (open_camera demo_world None True (init_state [])) \<and>
   fst (list_cameras_interactive demo_world (init_state [Line ''2''])) = Ret 2 \<and>
   cap_index (case fst (open_camera demo_world None True (init_state [])) of Ret c \<Rightarrow> c) = 2 \<and>
   handles_held (events (snd (open_camera demo_world None True (init_state [])))) = [2]"
proof -
  have a: "fst (list_cameras_interactive demo_world (init_state [Line ''2''])) = Ret 2"
    by code_simp
  have b: "cap_index (case fst (open_camera demo_world None True (init_state [])) of Ret c \<Rightarrow> c) = 2"
    by code_simp
  have c: "handles_held (events (snd (open_camera demo_world None True (init_state [])))) = [2]"
    by code_simp
  from a b c
    handles_held_during_operations [of "init_state [Line ''2'']" demo_world 0 5 True None]
    handles_held_during_operations [of "init_state []" demo_world 0 5 True None]
  show ?thesis by blast
qed

section \<open>Opening a camera\<close>

text \<open>
  Claim C6. With an explicit index, open_camera makes no enumeration first: the first
  thing it does is to create the capture for that index. If the device opens, the
  capture on that index is returned, whether or not an enumeration would list the index
  as working; if it does not open, the attempt on that index has still been made and no
  capture is returned. For an index the library refuses, that first call raises the
  library's error, nothing else is done and no capture is returned.
\<close>

theorem explicit_index_opened_directly:
  "(fits_c_int i \<and> W (clock s) i \<noteq> None \<longrightarrow>
      (\<exists>s'. open_camera W (Some i) pe s =
               (Ret \<lparr>cap_index = i, cap_session = W (clock s) i\<rparr>, s') \<and>
            take 1 (new_events s s') = [EvOpen i])) \<and>
   (fits_c_int i \<and> W (clock s) i = None \<longrightarrow>
      take 1 (new_events s (snd (open_camera W (Some i) pe s))) = [EvOpenFailed i] \<and>
      (\<forall>c. fst (open_camera W (Some i) pe s) \<noteq> Ret c)) \<and>
   (\<not> fits_c_int i \<longrightarrow>
      fst (open_camera W (Some i) pe s) = Exc Cv2Error \<and>
      new_events s (snd (open_camera W (Some i) pe s)) = [EvRejected i])"
proof (cases "fits_c_int i")
  case False
  then show ?thesis by (simp add: open_camera_def open_index_rejected new_events_def)
next
  case fits: True
  show ?thesis
  proof (cases "W (clock s) i")
    case (Some ss)
    with fits show ?thesis
      by (simp add: open_camera_def open_index_opened new_events_def split: option.split)
  next
    case None
    let ?s1 = "s\<lparr>clock := Suc (clock s), events := events s @ [EvOpenFailed i]\<rparr>"
    obtain r s2 where g: "get_available_cameras W default_max_test ?s1 = (r, s2)"
      by (cases "get_available_cameras W default_max_test ?s1")
    have sg: "steps ?s1 (r, s2)"
      using steps_get_available_cameras [of ?s1 W default_max_test] by (simp add: g)
    have "take 1 (new_events s s2) = [EvOpenFailed i]"
      by (rule steps_new_events_hd [OF sg]) simp
    with None fits show ?thesis
      by (cases r) (simp_all add: open_camera_def open_index_failed g)
  qed
qed

theorem explicit_index_opened_directly_witness:
  "fst (get_available_cameras demo_world default_max_test (init_state [])) = Ret [0, 2] \<and>
   demo_world (clock (init_state [])) 1 \<noteq> None \<and>
   (\<exists>s'. open_camera demo_world (Some 1) True (init_state []) =
            (Ret \<lparr>cap_index = 1, cap_session = demo_world (clock (init_state [])) 1\<rparr>, s') \<and>
         take 1 (new_events (init_state []) s') = [EvOpen 1]) \<and>
   take 1 (new_events (init_state []) (snd (open_camera demo_world (Some 7) True (init_state []))))
     = [EvOpenFailed 7] \<and>
   new_events (init_state [])
     (snd (open_camera demo_world (Some 2147483648) True (init_state []))) =
     [EvRejected 2147483648]"
proof -
  have a: "fst (get_available_cameras demo_world default_max_test (init_state [])) = Ret [0, 2]"
    by code_simp
  have b: "demo_world (clock (init_state [])) 1 \<noteq> None" by (simp add: demo_world_def)
  have c: "demo_world (clock (init_state [])) 7 = None" by (simp add: demo_world_def)
  have f: "fits_c_int 1" "fits_c_int 7" "\<not> fits_c_int 2147483648"
    by (simp_all add: fits_c_int_def)
  from a b c f explicit_index_opened_directly [of 1 demo_world "init_state []" True]
    explicit_index_opened_directly [of 7 demo_world "init_state []" True]
    explicit_index_opened_directly [of 2147483648 demo_world "init_state []" True]
  show ?thesis by blast
qed




section \<open>Interactive selection\<close>



text \<open>
  Claim C9, as stated, fails: on an empty line the loop calls select_best_camera, which
  enumerates anew. When camera 2 is unplugged after the list [0, 2] was shown, the
  automatic policy on that list gives 2 and the interactive selection returns 0.
\<close>

theorem empty_input_rescans_counterexample:
  "fst (get_available_cameras (unplug_world 7) default_max_test (init_state [Line ''''])) =
     Ret [0, 2] \<and>
   fst (select_from_available True [0, 2] (init_state [])) = Ret 2 \<and>
   fst (list_cameras_interactive (unplug_world 7) (init_state [Line ''''])) = Ret 0"
  by code_simp

text \<open>
  Claim C9, amended. With more than one camera listed, an empty line makes interactive
  selection return what select_best_camera with external cameras preferred returns at
  that moment, after the first scan and the listing: the automatic policy applied to the
  list of a new enumeration. Whenever the new enumeration finds the list that was shown,
  this is the policy applied to that list, its largest index.
\<close>

theorem empty_input_runs_auto_policy_on_fresh_scan:
  assumes "get_available_cameras W default_max_test s = (Ret av, s1)"
    and "1 < length av"
    and "stdin s = Line l # rest"
    and "py_strip l = []"
  shows "\<exists>s2. list_cameras_interactive W s = select_best_camera W True s2 \<and>
           clock s2 = clock s + nat default_max_test + length av \<and>
           stdin s2 = rest \<and>
           (\<forall>av' s3. get_available_cameras W default_max_test s2 = (Ret av', s3) \<longrightarrow>
              list_cameras_interactive W s = select_from_available True av' s3 \<and>
              (av' = av \<longrightarrow>
                 fst (list_cameras_interactive W s) = fst (select_from_available True av s) \<and>
                 fst (list_cameras_interactive W s) = Ret (Max (set av))))"
proof -
  from assms(1) obtain s2 where
    sh: "show_cameras W av (print RuleLine (print AvailableHeader s1)) = (Ret (), s2)" and
    st: "steps s (Ret (), print RuleLine s2)" and
    cl: "clock s2 = clock s + nat default_max_test + length av"
    by (rule listing_after_scan)
  let ?s3 = "print RuleLine s2"
  let ?s4 = "emit (EvPrompt av) (?s3\<lparr>stdin := rest\<rparr>)"
  from assms(2) have ne: "av \<noteq> []" "length av \<noteq> 1" by auto
  have inp: "stdin ?s3 = Line l # rest" using steps_stdin [OF st] assms(3) by simp
  have run: "list_cameras_interactive W s = select_best_camera W True ?s4"
    using assms(4) ne by (simp add: list_cameras_interactive_def assms(1) sh Let_def inp)
  have so: "sorted_wrt (<) av"
    using get_available_cameras_Ret(1) [OF assms(1)] strict_sorted_working
    by (simp add: py_range_def)
  have pick: "fst (select_from_available True av s) = Ret (Max (set av))"
    "\<And>s'. fst (select_from_available True av s') = Ret (Max (set av))"
    using ne so by (simp_all add: select_from_available_def strict_sorted_last_Max)
  have "\<forall>av' s3. get_available_cameras W default_max_test ?s4 = (Ret av', s3) \<longrightarrow>
              list_cameras_interactive W s = select_from_available True av' s3 \<and>
              (av' = av \<longrightarrow>
                 fst (list_cameras_interactive W s) = fst (select_from_available True av s) \<and>
                 fst (list_cameras_interactive W s) = Ret (Max (set av)))"
    using pick by (auto simp: run select_best_camera_def)
  moreover have "clock ?s4 = clock s + nat default_max_test + length av"
    by (simp add: emit_simps print_simps cl)
  moreover have "stdin ?s4 = rest" by (simp add: emit_simps)
  ultimately show ?thesis using run by blast
qed

theorem empty_input_runs_auto_policy_on_fresh_scan_witness:
  "get_available_cameras demo_world default_max_test (init_state [Line '' '']) =
     (Ret [0, 2], snd (get_available_cameras demo_world default_max_test (init_state [Line '' '']))) \<and>
   fst (list_cameras_interactive demo_world (init_state [Line '' ''])) = Ret 2 \<and>
   (\<exists>s2. list_cameras_interactive demo_world (init_state [Line '' '']) =
            select_best_camera demo_world True s2 \<and>
          clock s2 = clock (init_state [Line '' '']) + nat default_max_test + length [0, 2 :: int] \<and>
          stdin s2 = [])"
proof -
  have g: "get_available_cameras demo_world default_max_test (init_state [Line '' '']) =
     (Ret [0, 2], snd (get_available_cameras demo_world default_max_test (init_state [Line '' ''])))"
    by code_simp
  have l: "1 < length [0, 2 :: int]" by simp
  have i: "stdin (init_state [Line '' '']) = Line '' '' # []" by (simp add: init_state_def)
  have e: "py_strip '' '' = []" by code_simp
  have v: "fst (list_cameras_interactive demo_world (init_state [Line '' ''])) = Ret 2"
    by code_simp
  from empty_input_runs_auto_policy_on_fresh_scan [OF g l i e] g v
  show ?thesis by blast
qed

text \<open>
  Claim C10. When the enumeration finds exactly one working camera, interactive
  selection returns its index without prompting: no prompt is issued and the operator's
  pending responses are left untouched.
\<close>

theorem single_camera_returned_without_prompt:
  assumes "get_available_cameras W default_max_test s = (Ret [x], s1)"
  shows "\<exists>s'. list_cameras_interactive W s = (Ret x, s') \<and>
           stdin s' = stdin s \<and> prompts (events s') = prompts (events s)"
proof -
  from assms obtain s2 where
    sh: "show_cameras W [x] (print RuleLine (print AvailableHeader s1)) = (Ret (), s2)" and
    st: "steps s (Ret (), print RuleLine s2)"
    by (rule listing_after_scan)
  let ?s' = "print (OnlyOneAvailable x) (print RuleLine s2)"
  have run: "list_cameras_interactive W s = (Ret x, ?s')"
    using sh by (simp add: list_cameras_interactive_def assms Let_def)
  have "steps s (Ret x, ?s')" by (rule steps_then_print [OF st]) simp
  from steps_stdin [OF this] steps_prompts [OF this] run show ?thesis by simp
qed

theorem single_camera_returned_without_prompt_witness:
  "get_available_cameras single_world default_max_test (init_state [Line ''0'']) =
     (Ret [3], snd (get_available_cameras single_world default_max_test (init_state [Line ''0'']))) \<and>
   fst (list_cameras_interactive single_world (init_state [Line ''0''])) = Ret 3 \<and>
   stdin (snd (list_cameras_interactive single_world (init_state [Line ''0'']))) = [Line ''0''] \<and>
   prompts (events (snd (list_cameras_interactive single_world (init_state [Line ''0''])))) = 0"
proof -
  have g: "get_available_cameras single_world default_max_test (init_state [Line ''0'']) =
     (Ret [3], snd (get_available_cameras single_world default_max_test (init_state [Line ''0''])))"
    by code_simp
  have i: "stdin (init_state [Line ''0'']) = [Line ''0'']" "prompts (events (init_state [Line ''0''])) = 0"
    by (simp_all add: init_state_def prompts_def)
  from single_camera_returned_without_prompt [OF g] obtain s' where
    r: "list_cameras_interactive single_world (init_state [Line ''0'']) = (Ret 3, s')"
      "stdin s' = stdin (init_state [Line ''0''])"
      "prompts (events s') = prompts (events (init_state [Line ''0'']))"
    by blast
  have a: "fst (list_cameras_interactive single_world (init_state [Line ''0''])) = Ret 3"
    "stdin (snd (list_cameras_interactive single_world (init_state [Line ''0'']))) = [Line ''0'']"
    "prompts (events (snd (list_cameras_interactive single_world (init_state [Line ''0''])))) = 0"
    using r i by simp_all
  from g a show ?thesis by blast
qed

end
